theory Spec2Isabelle
  imports Main "HOL-Library.Sublist"
begin

section \<open>Strings as Go has them\<close>

text \<open>
  A Go string is a sequence of bytes; \<open>len\<close> counts bytes and \<open>s[i]\<close> reads one.
  The model uses \<^typ>\<open>string\<close>, whose characters are bytes.  The library functions of
  package \<open>strings\<close>, \<open>bufio\<close> and \<open>path/filepath\<close> that \<open>env.go\<close> calls are modelled
  from their documented behaviour on a Unix system.
\<close>

abbreviation dquote :: char where "dquote \<equiv> CHR 0x22"
abbreviation squote :: char where "squote \<equiv> CHR 0x27"
abbreviation newline :: char where "newline \<equiv> CHR 0x0A"
abbreviation creturn :: char where "creturn \<equiv> CHR 0x0D"

subsection \<open>\<open>strings.TrimSpace\<close>\<close>

text \<open>
  \<open>strings.TrimSpace\<close> removes leading and trailing white space as defined by Unicode
  (\<open>unicode.IsSpace\<close>).  On the bytes of a string these are the UTF-8 encodings of
  U+0009..U+000D, U+0020, U+0085, U+00A0, U+1680, U+2000..U+200A, U+2028, U+2029, U+202F,
  U+205F and U+3000.  A byte sequence that is no valid encoding decodes to the
  replacement rune, which is no white space, so trimming stops there.
\<close>

definition spaceEncodings :: "string list" where
  "spaceEncodings =
    [[CHR 0x09], [CHR 0x0A], [CHR 0x0B], [CHR 0x0C], [CHR 0x0D], [CHR 0x20],
     [CHR 0xC2, CHR 0x85], [CHR 0xC2, CHR 0xA0],
     [CHR 0xE1, CHR 0x9A, CHR 0x80],
     [CHR 0xE2, CHR 0x80, CHR 0x80], [CHR 0xE2, CHR 0x80, CHR 0x81],
     [CHR 0xE2, CHR 0x80, CHR 0x82], [CHR 0xE2, CHR 0x80, CHR 0x83],
     [CHR 0xE2, CHR 0x80, CHR 0x84], [CHR 0xE2, CHR 0x80, CHR 0x85],
     [CHR 0xE2, CHR 0x80, CHR 0x86], [CHR 0xE2, CHR 0x80, CHR 0x87],
     [CHR 0xE2, CHR 0x80, CHR 0x88], [CHR 0xE2, CHR 0x80, CHR 0x89],
     [CHR 0xE2, CHR 0x80, CHR 0x8A],
     [CHR 0xE2, CHR 0x80, CHR 0xA8], [CHR 0xE2, CHR 0x80, CHR 0xA9],
     [CHR 0xE2, CHR 0x80, CHR 0xAF],
     [CHR 0xE2, CHR 0x81, CHR 0x9F],
     [CHR 0xE3, CHR 0x80, CHR 0x80]]"

text \<open>The number of bytes of the white-space rune a string starts with, 0 if there is none.\<close>

definition spaceWidth :: "string list \<Rightarrow> string \<Rightarrow> nat" where
  "spaceWidth encs s = (case find (\<lambda>p. prefix p s) encs of None \<Rightarrow> 0 | Some p \<Rightarrow> length p)"

function stripSpaces :: "string list \<Rightarrow> string \<Rightarrow> string" where
  "stripSpaces encs s =
     (if spaceWidth encs s = 0 then s else stripSpaces encs (drop (spaceWidth encs s) s))"
  by pat_completeness auto
termination
proof (relation "measure (\<lambda>(encs, s). length s)")
  show "wf (measure (\<lambda>(encs :: string list, s :: string). length s))" by simp
next
  fix encs :: "string list" and s :: string
  assume "spaceWidth encs s \<noteq> 0"
  then have "0 < spaceWidth encs s" by simp
  moreover from this have "0 < length s"
    by (auto simp: spaceWidth_def find_Some_iff split: option.splits)
  ultimately show "((encs, drop (spaceWidth encs s) s), (encs, s))
                   \<in> measure (\<lambda>(encs, s). length s)"
    by simp
qed

definition TrimLeftSpace :: "string \<Rightarrow> string" where
  "TrimLeftSpace s = stripSpaces spaceEncodings s"

text \<open>From the right the runes are decoded backwards: the same encodings, as suffixes.\<close>

definition TrimRightSpace :: "string \<Rightarrow> string" where
  "TrimRightSpace s = rev (stripSpaces (map rev spaceEncodings) (rev s))"

definition TrimSpace :: "string \<Rightarrow> string" where
  "TrimSpace s = TrimRightSpace (TrimLeftSpace s)"

subsection \<open>\<open>strings.HasPrefix\<close>, \<open>strings.SplitN\<close>, \<open>strings.Join\<close>\<close>

definition HasPrefix :: "string \<Rightarrow> string \<Rightarrow> bool" where
  "HasPrefix s p = (take (length p) s = p)"

text \<open>
  \<open>strings.SplitN(s, sep, 2)\<close> for a separator of one byte: the string itself when the
  separator does not occur, otherwise the part before its first occurrence and the
  whole rest after it.
\<close>

definition SplitN2 :: "string \<Rightarrow> char \<Rightarrow> string list" where
  "SplitN2 s sep =
     (if sep \<in> set s then [takeWhile (\<lambda>c. c \<noteq> sep) s, tl (dropWhile (\<lambda>c. c \<noteq> sep) s)]
      else [s])"

fun JoinSep :: "string list \<Rightarrow> string \<Rightarrow> string" where
  "JoinSep [] sep = []"
| "JoinSep [x] sep = x"
| "JoinSep (x # y # ys) sep = x @ sep @ JoinSep (y # ys) sep"

subsection \<open>\<open>bufio.Scanner\<close> with the default split function \<open>ScanLines\<close>\<close>

definition dropCR :: "string \<Rightarrow> string" where
  "dropCR data = (if data \<noteq> [] \<and> last data = creturn then butlast data else data)"

text \<open>
  The tokens the scanner delivers for the bytes it has read: each line without its end
  of line marker (a newline, with one carriage return before it dropped); a last line
  that is not empty is delivered also without a newline at its end.
\<close>

function ScanLines :: "string \<Rightarrow> string list" where
  "ScanLines data =
     (if data = [] then []
      else if newline \<in> set data
        then dropCR (takeWhile (\<lambda>c. c \<noteq> newline) data)
               # ScanLines (tl (dropWhile (\<lambda>c. c \<noteq> newline) data))
        else [dropCR data])"
  by pat_completeness auto
termination
proof (relation "measure length")
  show "wf (measure length)" by simp
next
  fix data :: string
  assume "data \<noteq> []" and "newline \<in> set data"
  then have "dropWhile (\<lambda>c. c \<noteq> newline) data \<noteq> []"
    by simp
  then have "length (tl (dropWhile (\<lambda>c. c \<noteq> newline) data))
             < length (dropWhile (\<lambda>c. c \<noteq> newline) data)"
    by simp
  also have "\<dots> \<le> length data"
    by (rule length_dropWhile_le)
  finally show "(tl (dropWhile (\<lambda>c. c \<noteq> newline) data), data) \<in> measure length"
    by simp
qed

subsection \<open>\<open>filepath.Join\<close> and \<open>filepath.Clean\<close>\<close>

text \<open>
  \<open>filepath.Clean\<close> works on the path elements between separators: empty elements and
  \<open>.\<close> are dropped, \<open>..\<close> removes the element before it, is dropped at the root and is
  kept at the start of a path that is not rooted.  The empty result is \<open>.\<close>.
\<close>

fun Split :: "char \<Rightarrow> string \<Rightarrow> string list" where
  "Split sep [] = [[]]"
| "Split sep (c # cs) =
     (if c = sep then [] # Split sep cs
      else (case Split sep cs of [] \<Rightarrow> [[c]] | w # ws \<Rightarrow> (c # w) # ws))"

text \<open>The elements kept so far are held last first, as the output buffer is cut back from its end.\<close>

fun cleanElems :: "bool \<Rightarrow> string list \<Rightarrow> string list \<Rightarrow> string list" where
  "cleanElems rooted out [] = rev out"
| "cleanElems rooted out (el # els) =
     (if el = [] \<or> el = ''.'' then cleanElems rooted out els
      else if el = ''..'' then
        (case out of
           lastEl # below \<Rightarrow>
             if lastEl \<noteq> ''..'' then cleanElems rooted below els
             else if rooted then cleanElems rooted out els
             else cleanElems rooted (''..'' # out) els
         | [] \<Rightarrow>
             if rooted then cleanElems rooted out els
             else cleanElems rooted (''..'' # out) els)
      else cleanElems rooted (el # out) els)"

definition Clean :: "string \<Rightarrow> string" where
  "Clean path =
     (if path = [] then ''.''
      else
        let rooted = (hd path = CHR ''/'');
            out = (if rooted then ''/'' else []) @ JoinSep (cleanElems rooted [] (Split CHR ''/'' path)) ''/''
        in if out = [] then ''.'' else out)"

text \<open>
  \<open>filepath.Join\<close> of two elements: the elements from the first non-empty one on are
  joined with the separator and the result is cleaned; all empty gives the empty string.
\<close>

definition Join :: "string \<Rightarrow> string \<Rightarrow> string" where
  "Join a b =
     (if a \<noteq> [] then Clean (JoinSep [a, b] ''/'')
      else if b \<noteq> [] then Clean (JoinSep [b] ''/'')
      else [])"

section \<open>The file system as \<open>env.go\<close> sees it\<close>

text \<open>
  \<open>env.go\<close> touches the file system through \<open>os.Stat\<close>, \<open>os.Open\<close> and the scanner that
  reads the opened file.  An opened file is the bytes the scanner receives and the
  error \<open>scanner.Err()\<close> reports when scanning stops (\<open>None\<close> at a plain end of file).
\<close>

datatype os_error = ErrNotExist | ErrPermission | ErrOther string

fun IsNotExist :: "os_error \<Rightarrow> bool" where
  "IsNotExist ErrNotExist = True"
| "IsNotExist _ = False"

datatype os_file = File (data: string) (scanErr: "os_error option")

record file_system =
  Stat :: "string \<Rightarrow> os_error option"
  Open :: "string \<Rightarrow> os_error + os_file"

section \<open>Package \<open>env\<close>\<close>

type_synonym envs = "string \<rightharpoonup> string"

record Env =
  pwd :: string
  configDir :: string

definition New :: "string \<Rightarrow> string \<Rightarrow> Env" where
  "New p c = \<lparr>pwd = p, configDir = c\<rparr>"

subsection \<open>\<open>loadEnvFile\<close>\<close>

text \<open>The removal of quotes from a trimmed value, with the indices of the source.\<close>

definition removeQuotes :: "string \<Rightarrow> string" where
  "removeQuotes v =
     (if length v \<ge> 2 then
        (if (v ! 0 = dquote \<and> v ! (length v - 1) = dquote)
            \<or> (v ! 0 = squote \<and> v ! (length v - 1) = squote)
         then drop 1 (take (length v - 1) v)
         else v)
      else v)"

text \<open>The body of the scanning loop: one token of the scanner, and the map it updates.\<close>

definition scanStep :: "envs \<Rightarrow> string \<Rightarrow> envs" where
  "scanStep m text =
     (let line = TrimSpace text in
      if line = [] \<or> HasPrefix line ''#'' then m
      else
        let parts = SplitN2 line CHR ''='' in
        if length parts \<noteq> 2 then m
        else
          let key = TrimSpace (parts ! 0);
              val = TrimSpace (parts ! 1)
          in m(key \<mapsto> removeQuotes val))"

text \<open>
  \<open>loadEnvFile\<close> updates the map it is given in place and returns an error value: the
  model returns the map as the call leaves it, and the error.
\<close>

definition loadEnvFile :: "file_system \<Rightarrow> string \<Rightarrow> envs \<Rightarrow> envs \<times> os_error option" where
  "loadEnvFile fs filename m =
     (case Open fs filename of
        Inl err \<Rightarrow> if IsNotExist err then (m, None) else (m, Some err)
      | Inr f \<Rightarrow> (foldl scanStep m (ScanLines (data f)), scanErr f))"

subsection \<open>\<open>getSearchDirectories\<close> and \<open>LoadEnvFiles\<close>\<close>

definition getSearchDirectories :: "Env \<Rightarrow> string list" where
  "getSearchDirectories e =
     (let dirs = [];
          dirs = (if pwd e \<noteq> [] then dirs @ [pwd e] else dirs);
          dirs = (if configDir e \<noteq> [] then dirs @ [Join (configDir e) ''envdo''] else dirs)
      in dirs)"

definition envFilename :: "string \<Rightarrow> string" where
  "envFilename profile = (if profile \<noteq> [] then ''.env.'' @ profile else ''.env'')"

text \<open>The error \<open>fmt.Errorf("failed to load %s: %w", envPath, err)\<close>: the path and the cause.\<close>

datatype load_error = FailedToLoad string os_error

text \<open>
  The loop \<open>for i := len(dirs) - 1; i >= 0; i--\<close>: \<open>loadDirs fs filename dirs n m\<close> runs the
  iterations \<open>i = n - 1\<close> down to \<open>0\<close> on the map \<open>m\<close>.  On an error the map is dropped.
\<close>

fun loadDirs :: "file_system \<Rightarrow> string \<Rightarrow> string list \<Rightarrow> nat \<Rightarrow> envs \<Rightarrow> load_error + envs" where
  "loadDirs fs filename dirs 0 m = Inr m"
| "loadDirs fs filename dirs (Suc i) m =
     (let envPath = Join (dirs ! i) filename in
      if Stat fs envPath = None then
        (case loadEnvFile fs envPath m of
           (m', Some err) \<Rightarrow> Inl (FailedToLoad envPath err)
         | (m', None) \<Rightarrow> loadDirs fs filename dirs i m')
      else loadDirs fs filename dirs i m)"

definition LoadEnvFiles :: "file_system \<Rightarrow> Env \<Rightarrow> string \<Rightarrow> load_error + envs" where
  "LoadEnvFiles fs e profile =
     (let dirs = getSearchDirectories e
      in loadDirs fs (envFilename profile) dirs (length dirs) Map.empty)"

section \<open>Notions used to state the properties\<close>

text \<open>
  What one iteration of the loop of \<open>LoadEnvFiles\<close> meets at a path.  \<open>readError\<close> is the
  error that makes the iteration return: the file passes \<open>os.Stat\<close>, and then either
  \<open>os.Open\<close> fails with an error other than "does not exist" or the scanner ends with an
  error.  \<open>fileEnvs\<close> is the map the file defines on its own: the entries of its lines when
  it passes \<open>os.Stat\<close> and opens, and no entry otherwise.  A file is missing when
  \<open>os.Stat\<close> fails on its path (with whatever error), or \<open>os.Open\<close> reports that it does not
  exist.
\<close>

definition readError :: "file_system \<Rightarrow> string \<Rightarrow> os_error option" where
  "readError fs path =
     (case Stat fs path of
        Some e \<Rightarrow> None
      | None \<Rightarrow>
          (case Open fs path of
             Inl err \<Rightarrow> if IsNotExist err then None else Some err
           | Inr f \<Rightarrow> scanErr f))"

definition fileEnvs :: "file_system \<Rightarrow> string \<Rightarrow> envs" where
  "fileEnvs fs path =
     (case Stat fs path of
        Some e \<Rightarrow> Map.empty
      | None \<Rightarrow>
          (case Open fs path of
             Inl err \<Rightarrow> Map.empty
           | Inr f \<Rightarrow> foldl scanStep Map.empty (ScanLines (data f))))"


text \<open>
  The merge as the specification words it, for comparison with the loop of the source:
  the layers are taken in priority order, highest first, and each later layer yields to
  the keys that are already set.
\<close>

definition mergeYielding :: "envs list \<Rightarrow> envs" where
  "mergeYielding layers = foldl (\<lambda>acc layer. layer ++ acc) Map.empty layers"

text \<open>
  The files the tests of \<open>env_test.go\<close> set up with \<open>createTestFile\<close>: the files of the
  list exist with the given contents and can be read to their end; nothing else exists.
\<close>

definition testFiles :: "(string \<times> string) list \<Rightarrow> file_system" where
  "testFiles files =
     \<lparr>Stat = (\<lambda>p. case map_of files p of None \<Rightarrow> Some ErrNotExist | Some d \<Rightarrow> None),
      Open = (\<lambda>p. case map_of files p of None \<Rightarrow> Inl ErrNotExist | Some d \<Rightarrow> Inr (File d None))\<rparr>"

text \<open>
  A path element that \<open>filepath.Clean\<close> keeps as it is: not empty, without a separator,
  and neither \<open>.\<close> nor \<open>..\<close>.
\<close>

definition plainElem :: "string \<Rightarrow> bool" where
  "plainElem c \<longleftrightarrow> c \<noteq> [] \<and> CHR ''/'' \<notin> set c \<and> c \<noteq> ''.'' \<and> c \<noteq> ''..''"

text \<open>
  The files of the test "hierarchical search - pwd priority over config" of
  \<open>env_test.go\<close>, with the working directory \<open>/pwd\<close> and the configuration directory
  \<open>/config\<close>.
\<close>

definition hierarchicalFiles :: file_system where
  "hierarchicalFiles = testFiles
     [(''/pwd/.env'', ''KEY1=pwd_value'' @ [newline] @ ''PWD_ONLY=pwd_key'' @ [newline]),
      (''/config/envdo/.env'',
         ''KEY1=config_value'' @ [newline] @ ''CONFIG_ONLY=config_key'' @ [newline])]"

definition hierarchicalEnv :: Env where
  "hierarchicalEnv = New ''/pwd'' ''/config''"


text \<open>
  The files of the test "profile with hierarchy - test profile priority", and the same
  files together with the files without a profile of the test before.
\<close>

definition stagingFiles :: file_system where
  "stagingFiles = testFiles
     [(''/pwd/.env.staging'',
         ''STAGE_KEY=pwd_staging'' @ [newline] @ ''COMMON=pwd_common'' @ [newline]),
      (''/config/envdo/.env.staging'',
         ''STAGE_KEY=config_staging'' @ [newline] @ ''CONFIG_STAGE=config_value'' @ [newline])]"

definition stagingAndPlainFiles :: file_system where
  "stagingAndPlainFiles = testFiles
     [(''/pwd/.env.staging'',
         ''STAGE_KEY=pwd_staging'' @ [newline] @ ''COMMON=pwd_common'' @ [newline]),
      (''/config/envdo/.env.staging'',
         ''STAGE_KEY=config_staging'' @ [newline] @ ''CONFIG_STAGE=config_value'' @ [newline]),
      (''/pwd/.env'', ''KEY1=pwd_value'' @ [newline] @ ''PWD_ONLY=pwd_key'' @ [newline]),
      (''/config/envdo/.env'',
         ''KEY1=config_value'' @ [newline] @ ''CONFIG_ONLY=config_key'' @ [newline])]"

section \<open>The parser of one line\<close>

lemma TrimSpace_Nil: "TrimSpace [] = []"
  by (simp add: TrimSpace_def TrimLeftSpace_def TrimRightSpace_def spaceWidth_def spaceEncodings_def)

lemma HasPrefix_hash: "HasPrefix s ''#'' \<longleftrightarrow> s \<noteq> [] \<and> hd s = CHR ''#''"
  by (cases s) (simp_all add: HasPrefix_def)

lemma SplitN2_none: "sep \<notin> set s \<Longrightarrow> SplitN2 s sep = [s]"
  by (simp add: SplitN2_def)

lemma SplitN2_first: "sep \<notin> set k \<Longrightarrow> SplitN2 (k @ sep # v) sep = [k, v]"
  by (induction k) (auto simp: SplitN2_def)

lemma scanStep_skip:
  "TrimSpace text = [] \<or> hd (TrimSpace text) = CHR ''#'' \<Longrightarrow> scanStep m text = m"
  by (auto simp: scanStep_def Let_def HasPrefix_hash)

lemma scanStep_no_eq:
  "CHR ''='' \<notin> set (TrimSpace text) \<Longrightarrow> scanStep m text = m"
  by (simp add: scanStep_def Let_def SplitN2_none)

lemma scanStep_entry:
  assumes "TrimSpace text = k @ CHR ''='' # v" and "CHR ''='' \<notin> set k"
    and "hd (TrimSpace text) \<noteq> CHR ''#''"
  shows "scanStep m text = m(TrimSpace k \<mapsto> removeQuotes (TrimSpace v))"
  using assms by (simp add: scanStep_def Let_def HasPrefix_hash SplitN2_first)

lemma removeQuotes_alt:
  "removeQuotes v =
     (if 2 \<le> length v \<and> ((hd v = dquote \<and> last v = dquote) \<or> (hd v = squote \<and> last v = squote))
      then butlast (tl v) else v)"
proof (cases "2 \<le> length v")
  case False
  then show ?thesis by (simp add: removeQuotes_def)
next
  case True
  then have ne: "v \<noteq> []" by auto
  have h: "v ! 0 = hd v" using ne by (simp add: hd_conv_nth)
  have l: "v ! (length v - Suc 0) = last v" using ne by (simp add: last_conv_nth)
  have d: "drop (Suc 0) (take (length v - Suc 0) v) = butlast (tl v)"
    by (simp add: butlast_conv_take drop_Suc tl_take drop_tl)
  show ?thesis using True by (simp add: removeQuotes_def h l d)
qed

lemma removeQuotes_unquoted:
  "\<not> (2 \<le> length v \<and> ((hd v = dquote \<and> last v = dquote) \<or> (hd v = squote \<and> last v = squote)))
   \<Longrightarrow> removeQuotes v = v"
  by (auto simp: removeQuotes_alt)

lemma removeQuotes_quoted:
  assumes "2 \<le> length v" and "hd v = q" and "last v = q" and "q = dquote \<or> q = squote"
  shows "v = q # removeQuotes v @ [q]"
proof -
  from assms(1) obtain a w where v: "v = a # w" and w: "w \<noteq> []"
    by (cases v) (auto simp: Suc_le_eq)
  from w obtain u b where wu: "w = u @ [b]"
    by (metis rev_exhaust)
  from assms(2,3) v wu have ab: "a = q" "b = q" by simp_all
  have "removeQuotes v = u"
    using assms(4) by (auto simp: removeQuotes_alt v wu ab)
  then show ?thesis by (simp add: v wu ab)
qed


lemma scanStep_add: "scanStep m text = m ++ scanStep Map.empty text"
  by (simp add: scanStep_def Let_def)

lemma foldl_scanStep_add: "foldl scanStep m ls = m ++ foldl scanStep Map.empty ls"
proof (induction ls arbitrary: m)
  case Nil
  show ?case by simp
next
  case (Cons l ls)
  have "foldl scanStep m (l # ls) = scanStep m l ++ foldl scanStep Map.empty ls"
    using Cons.IH [of "scanStep m l"] by simp
  also have "\<dots> = m ++ (scanStep Map.empty l ++ foldl scanStep Map.empty ls)"
    by (subst scanStep_add) simp
  also have "scanStep Map.empty l ++ foldl scanStep Map.empty ls
             = foldl scanStep Map.empty (l # ls)"
    using Cons.IH [of "scanStep Map.empty l"] by simp
  finally show ?case .
qed

lemma foldl_scanStep_undefined:
  "\<forall>l \<in> set ls. scanStep Map.empty l k = None \<Longrightarrow> foldl scanStep m ls k = m k"
proof (induction ls arbitrary: m)
  case Nil
  show ?case by simp
next
  case (Cons l ls)
  have "scanStep m l k = m k"
    using Cons.prems by (subst scanStep_add) (simp add: map_add_def)
  with Cons show ?case by simp
qed

lemma foldl_scanStep_last:
  assumes "scanStep Map.empty l k = Some v"
    and "\<forall>l' \<in> set post. scanStep Map.empty l' k = None"
  shows "foldl scanStep m (pre @ l # post) k = Some v"
proof -
  have "scanStep (foldl scanStep m pre) l k = Some v"
    using assms(1) by (subst scanStep_add) (simp add: map_add_def)
  then show ?thesis
    using foldl_scanStep_undefined [OF assms(2)] by simp
qed

lemma dom_scanStep: "dom m \<subseteq> dom (scanStep m text)"
  by (subst scanStep_add) simp

lemma dom_foldl_scanStep: "dom m \<subseteq> dom (foldl scanStep m ls)"
  by (subst foldl_scanStep_add) simp


text \<open>
  Claim C4 (quote stripping).  For a line that is parsed (its trimmed form is
  \<open>k = raw\<close> split at the first \<open>=\<close>, and is no comment), the value recorded under the
  trimmed key is \<open>removeQuotes w\<close> for the trimmed value part \<open>w\<close>.  If \<open>w\<close> has at least
  two bytes and its first and last byte are both the double quote or both the single
  quote, then \<open>w\<close> is the recorded value with exactly that one quote put back in front and
  behind; otherwise the recorded value is \<open>w\<close> itself, unchanged.
\<close>

theorem quote_stripping_rule:
  assumes "TrimSpace text = k @ CHR ''='' # raw" and "CHR ''='' \<notin> set k"
    and "hd (TrimSpace text) \<noteq> CHR ''#''" and "w = TrimSpace raw"
  shows "scanStep m text (TrimSpace k) = Some (removeQuotes w) \<and>
         (2 \<le> length w \<and> ((hd w = dquote \<and> last w = dquote) \<or> (hd w = squote \<and> last w = squote))
            \<longrightarrow> w = hd w # removeQuotes w @ [hd w]) \<and>
         (\<not> (2 \<le> length w \<and> ((hd w = dquote \<and> last w = dquote) \<or> (hd w = squote \<and> last w = squote)))
            \<longrightarrow> removeQuotes w = w)"
proof (intro conjI impI)
  show "scanStep m text (TrimSpace k) = Some (removeQuotes w)"
    using scanStep_entry [OF assms(1,2,3)] assms(4) by simp
next
  assume q: "2 \<le> length w \<and> ((hd w = dquote \<and> last w = dquote) \<or> (hd w = squote \<and> last w = squote))"
  then have "last w = hd w" and "hd w = dquote \<or> hd w = squote" by auto
  with q show "w = hd w # removeQuotes w @ [hd w]"
    using removeQuotes_quoted [of w "hd w"] by simp
next
  assume "\<not> (2 \<le> length w \<and> ((hd w = dquote \<and> last w = dquote) \<or> (hd w = squote \<and> last w = squote)))"
  then show "removeQuotes w = w" by (rule removeQuotes_unquoted)
qed


theorem quote_stripping_rule_witness:
  "TrimSpace (''KEY='' @ [dquote] @ ''a b'' @ [dquote]) = ''KEY'' @ CHR ''='' # ([dquote] @ ''a b'' @ [dquote])
   \<and> CHR ''='' \<notin> set ''KEY''
   \<and> hd (TrimSpace (''KEY='' @ [dquote] @ ''a b'' @ [dquote])) \<noteq> CHR ''#''
   \<and> scanStep Map.empty (''KEY='' @ [dquote] @ ''a b'' @ [dquote]) ''KEY'' = Some ''a b''
   \<and> [dquote] @ ''a b'' @ [dquote] = dquote # ''a b'' @ [dquote]
   \<and> TrimSpace ''KEY=e f'' = ''KEY'' @ CHR ''='' # ''e f''
   \<and> scanStep Map.empty ''KEY=e f'' ''KEY'' = Some ''e f''"
proof -
  let ?T = "''KEY='' @ [dquote] @ ''a b'' @ [dquote]"
  let ?R = "[dquote] @ ''a b'' @ [dquote]"
  have t: "TrimSpace ?T = ''KEY'' @ CHR ''='' # ?R" by code_simp
  have k: "CHR ''='' \<notin> set ''KEY''" by simp
  have h: "hd (TrimSpace ?T) \<noteq> CHR ''#''" by (simp only: t) simp
  have r: "TrimSpace ?R = ?R" by code_simp
  have key: "TrimSpace ''KEY'' = ''KEY''" by code_simp
  have q: "2 \<le> length ?R \<and> ((hd ?R = dquote \<and> last ?R = dquote) \<or> (hd ?R = squote \<and> last ?R = squote))"
    by simp
  have rq: "removeQuotes ?R = ''a b''" by code_simp
  have t2: "TrimSpace ''KEY=e f'' = ''KEY'' @ CHR ''='' # ''e f''" by code_simp
  have h2: "hd (TrimSpace ''KEY=e f'') \<noteq> CHR ''#''" by (simp only: t2) simp
  have r2: "TrimSpace ''e f'' = ''e f''" by code_simp
  have nq: "\<not> (2 \<le> length ''e f'' \<and> ((hd ''e f'' = dquote \<and> last ''e f'' = dquote)
              \<or> (hd ''e f'' = squote \<and> last ''e f'' = squote)))"
    by simp
  note th = quote_stripping_rule [OF t k h r [symmetric], of Map.empty]
  have a: "scanStep Map.empty ?T ''KEY'' = Some ''a b''"
    using th [THEN conjunct1] by (simp only: key rq)
  have "?R = hd ?R # removeQuotes ?R @ [hd ?R]"
    using th q by blast
  then have b: "?R = dquote # ''a b'' @ [dquote]"
    by (simp only: rq) simp
  note th2 = quote_stripping_rule [OF t2 k h2 r2 [symmetric], of Map.empty]
  have "removeQuotes ''e f'' = ''e f''"
    using th2 nq by blast
  then have c: "scanStep Map.empty ''KEY=e f'' ''KEY'' = Some ''e f''"
    using th2 [THEN conjunct1] by (simp only: key)
  from t k h a b t2 c show ?thesis by blast
qed

section \<open>Lines, skipped and parsed\<close>

text \<open>
  Claim C5 (line skipping).  A scanner token whose trimmed form is empty or starts with
  \<open>#\<close> leaves the map as it is; so does a token whose trimmed form holds no \<open>=\<close>.  Any
  other token, split at its first \<open>=\<close> into \<open>k\<close> and \<open>v\<close>, sets exactly the one entry of
  the trimmed key to the unquoted trimmed value.  \<open>loadEnvFile\<close> applies this step to the
  tokens of the opened file in order, and a skipped line is no error.
\<close>

theorem line_skipping_rules:
  "(TrimSpace text = [] \<or> hd (TrimSpace text) = CHR ''#'' \<longrightarrow> scanStep m text = m) \<and>
   (CHR ''='' \<notin> set (TrimSpace text) \<longrightarrow> scanStep m text = m) \<and>
   (TrimSpace text = k @ CHR ''='' # v \<and> CHR ''='' \<notin> set k \<and> hd (TrimSpace text) \<noteq> CHR ''#''
      \<longrightarrow> scanStep m text = m(TrimSpace k \<mapsto> removeQuotes (TrimSpace v))) \<and>
   (Open fs path = Inr f
      \<longrightarrow> loadEnvFile fs path m = (foldl scanStep m (ScanLines (data f)), scanErr f))"
proof (intro conjI impI)
  assume "TrimSpace text = [] \<or> hd (TrimSpace text) = CHR ''#''"
  then show "scanStep m text = m" by (rule scanStep_skip)
next
  assume "CHR ''='' \<notin> set (TrimSpace text)"
  then show "scanStep m text = m" by (rule scanStep_no_eq)
next
  assume "TrimSpace text = k @ CHR ''='' # v \<and> CHR ''='' \<notin> set k \<and> hd (TrimSpace text) \<noteq> CHR ''#''"
  then show "scanStep m text = m(TrimSpace k \<mapsto> removeQuotes (TrimSpace v))"
    by (blast intro: scanStep_entry)
next
  assume "Open fs path = Inr f"
  then show "loadEnvFile fs path m = (foldl scanStep m (ScanLines (data f)), scanErr f)"
    by (simp add: loadEnvFile_def)
qed

theorem line_skipping_rules_witness:
  "(hd (TrimSpace ''# note'') = CHR ''#'' \<and> scanStep Map.empty ''# note'' = Map.empty) \<and>
   (TrimSpace ''   '' = [] \<and> scanStep Map.empty ''   '' = Map.empty) \<and>
   (CHR ''='' \<notin> set (TrimSpace ''BROKEN'') \<and> scanStep Map.empty ''BROKEN'' = Map.empty) \<and>
   (TrimSpace '' OTHER = 2'' = ''OTHER '' @ CHR ''='' # '' 2'' \<and> CHR ''='' \<notin> set ''OTHER ''
      \<and> hd (TrimSpace '' OTHER = 2'') \<noteq> CHR ''#''
      \<and> scanStep Map.empty '' OTHER = 2'' = [''OTHER'' \<mapsto> ''2'']) \<and>
   (Open \<lparr>Stat = (\<lambda>p. None), Open = (\<lambda>p. Inr (File (''VALID=1'' @ [newline] @ ''BROKEN'' @ [newline] @ ''OTHER=2'' @ [newline]) None))\<rparr> ''.env''
        = Inr (File (''VALID=1'' @ [newline] @ ''BROKEN'' @ [newline] @ ''OTHER=2'' @ [newline]) None)
      \<and> loadEnvFile \<lparr>Stat = (\<lambda>p. None), Open = (\<lambda>p. Inr (File (''VALID=1'' @ [newline] @ ''BROKEN'' @ [newline] @ ''OTHER=2'' @ [newline]) None))\<rparr> ''.env'' Map.empty
        = ([''VALID'' \<mapsto> ''1'', ''OTHER'' \<mapsto> ''2''], None))"
proof -
  let ?D = "''VALID=1'' @ [newline] @ ''BROKEN'' @ [newline] @ ''OTHER=2'' @ [newline]"
  let ?fs = "\<lparr>Stat = (\<lambda>p. None), Open = (\<lambda>p. Inr (File ?D None))\<rparr>"
  have c1: "hd (TrimSpace ''# note'') = CHR ''#''" by code_simp
  have c2: "TrimSpace ''   '' = []" by code_simp
  have c3: "CHR ''='' \<notin> set (TrimSpace ''BROKEN'')" by code_simp
  have t: "TrimSpace '' OTHER = 2'' = ''OTHER '' @ CHR ''='' # '' 2''" by code_simp
  have k: "CHR ''='' \<notin> set ''OTHER ''" by simp
  have h: "hd (TrimSpace '' OTHER = 2'') \<noteq> CHR ''#''" by (simp only: t) simp
  have tk: "TrimSpace ''OTHER '' = ''OTHER''" by code_simp
  have tv: "removeQuotes (TrimSpace '' 2'') = ''2''" by code_simp
  have o: "Open ?fs ''.env'' = Inr (File ?D None)" by simp
  have lines: "ScanLines ?D = [''VALID=1'', ''BROKEN'', ''OTHER=2'']" by code_simp
  have t1: "TrimSpace ''VALID=1'' = ''VALID'' @ CHR ''='' # ''1''" by code_simp
  have k1: "CHR ''='' \<notin> set ''VALID''" by simp
  have h1: "hd (TrimSpace ''VALID=1'') \<noteq> CHR ''#''" by (simp only: t1) simp
  have tk1: "TrimSpace ''VALID'' = ''VALID''" by code_simp
  have tv1: "removeQuotes (TrimSpace ''1'') = ''1''" by code_simp
  have "scanStep Map.empty ''VALID=1''
        = Map.empty(TrimSpace ''VALID'' \<mapsto> removeQuotes (TrimSpace ''1''))"
    using line_skipping_rules [of "''VALID=1''" Map.empty "''VALID''" "''1''"] t1 k1 h1 by blast
  then have s1: "scanStep Map.empty ''VALID=1'' = [''VALID'' \<mapsto> ''1'']"
    by (simp only: tk1 tv1)
  have s2: "scanStep [''VALID'' \<mapsto> ''1''] ''BROKEN'' = [''VALID'' \<mapsto> ''1'']"
    using line_skipping_rules [of "''BROKEN''" "[''VALID'' \<mapsto> ''1'']"] c3 by blast
  have t3: "TrimSpace ''OTHER=2'' = ''OTHER'' @ CHR ''='' # ''2''" by code_simp
  have k3: "CHR ''='' \<notin> set ''OTHER''" by simp
  have h3: "hd (TrimSpace ''OTHER=2'') \<noteq> CHR ''#''" by (simp only: t3) simp
  have tk3: "TrimSpace ''OTHER'' = ''OTHER''" by code_simp
  have tv3: "removeQuotes (TrimSpace ''2'') = ''2''" by code_simp
  have "scanStep [''VALID'' \<mapsto> ''1''] ''OTHER=2''
        = [''VALID'' \<mapsto> ''1'', TrimSpace ''OTHER'' \<mapsto> removeQuotes (TrimSpace ''2'')]"
    using line_skipping_rules [of "''OTHER=2''" "[''VALID'' \<mapsto> ''1'']" "''OTHER''" "''2''"] t3 k3 h3
    by blast
  then have s3: "scanStep [''VALID'' \<mapsto> ''1''] ''OTHER=2'' = [''VALID'' \<mapsto> ''1'', ''OTHER'' \<mapsto> ''2'']"
    by (simp only: tk3 tv3)
  have a1: "scanStep Map.empty ''# note'' = Map.empty"
    using line_skipping_rules [of "''# note''" Map.empty] c1 by blast
  have a2: "scanStep Map.empty ''   '' = Map.empty"
    using line_skipping_rules [of "''   ''" Map.empty] c2 by blast
  have a3: "scanStep Map.empty ''BROKEN'' = Map.empty"
    using line_skipping_rules [of "''BROKEN''" Map.empty] c3 by blast
  have "scanStep Map.empty '' OTHER = 2''
        = Map.empty(TrimSpace ''OTHER '' \<mapsto> removeQuotes (TrimSpace '' 2''))"
    using line_skipping_rules [of "'' OTHER = 2''" Map.empty "''OTHER ''" "'' 2''"] t k h by blast
  then have a4: "scanStep Map.empty '' OTHER = 2'' = [''OTHER'' \<mapsto> ''2'']"
    by (simp only: tk tv)
  have "loadEnvFile ?fs ''.env'' Map.empty = (foldl scanStep Map.empty (ScanLines ?D), None)"
    using line_skipping_rules [of "[]" Map.empty "[]" "[]" ?fs "''.env''" "File ?D None"] o
    by simp
  then have a5: "loadEnvFile ?fs ''.env'' Map.empty = ([''VALID'' \<mapsto> ''1'', ''OTHER'' \<mapsto> ''2''], None)"
    by (simp only: lines foldl.simps s1 s2 s3)
  from c1 a1 c2 a2 c3 a3 t k h a4 o a5 show ?thesis by blast
qed


text \<open>
  Claim C6 (empty key).  A line whose trimmed form is \<open>=VALUE\<close>, with nothing before the
  first \<open>=\<close>, is not skipped: it sets the entry of the empty key to the trimmed and
  unquoted \<open>VALUE\<close>.
\<close>

theorem empty_key_accepted:
  "TrimSpace text = CHR ''='' # raw \<Longrightarrow> scanStep m text = m([] \<mapsto> removeQuotes (TrimSpace raw))"
  using scanStep_entry [of "text" "[]" raw m] by (simp add: TrimSpace_Nil)

theorem empty_key_accepted_witness:
  "TrimSpace ''=VALUE'' = CHR ''='' # ''VALUE''
   \<and> scanStep Map.empty ''=VALUE'' = [[] \<mapsto> ''VALUE'']
   \<and> scanStep Map.empty ''=INVALID_EMPTY_KEY'' [] = Some ''INVALID_EMPTY_KEY''"
proof -
  have t: "TrimSpace ''=VALUE'' = CHR ''='' # ''VALUE''" by code_simp
  have v: "removeQuotes (TrimSpace ''VALUE'') = ''VALUE''" by code_simp
  have a: "scanStep Map.empty ''=VALUE'' = [[] \<mapsto> ''VALUE'']"
    using empty_key_accepted [OF t, of Map.empty] by (simp only: v)
  have t': "TrimSpace ''=INVALID_EMPTY_KEY'' = CHR ''='' # ''INVALID_EMPTY_KEY''" by code_simp
  have v': "removeQuotes (TrimSpace ''INVALID_EMPTY_KEY'') = ''INVALID_EMPTY_KEY''" by code_simp
  have "scanStep Map.empty ''=INVALID_EMPTY_KEY'' = [[] \<mapsto> ''INVALID_EMPTY_KEY'']"
    using empty_key_accepted [OF t', of Map.empty] by (simp only: v')
  then have b: "scanStep Map.empty ''=INVALID_EMPTY_KEY'' [] = Some ''INVALID_EMPTY_KEY''"
    by simp
  from t a b show ?thesis by blast
qed

text \<open>
  Claim C7 (duplicates inside one file).  When a line of the opened file defines the key
  \<open>k\<close> with the value \<open>v\<close> and no later line of the file defines \<open>k\<close>, the map that
  \<open>loadEnvFile\<close> leaves holds \<open>v\<close> for \<open>k\<close>, whatever earlier lines or the map before the
  call held for it: the last occurrence wins.  A line defines \<open>k\<close> with \<open>v\<close> when the loop
  body, run on the empty map, sets \<open>k\<close> to \<open>v\<close>.
\<close>

theorem last_occurrence_wins:
  assumes "Open fs path = Inr f"
    and "ScanLines (data f) = before @ l # after"
    and "scanStep Map.empty l k = Some v"
    and "\<forall>l' \<in> set after. scanStep Map.empty l' k = None"
  shows "fst (loadEnvFile fs path m) k = Some v"
  using assms(1,2) foldl_scanStep_last [OF assms(3,4)] by (simp add: loadEnvFile_def)

theorem last_occurrence_wins_witness:
  "Open \<lparr>Stat = (\<lambda>p. None), Open = (\<lambda>p. Inr (File (''K=1'' @ [newline] @ ''K=2'' @ [newline] @ ''J=3'') None))\<rparr> ''.env''
     = Inr (File (''K=1'' @ [newline] @ ''K=2'' @ [newline] @ ''J=3'') None)
   \<and> ScanLines (''K=1'' @ [newline] @ ''K=2'' @ [newline] @ ''J=3'') = [''K=1''] @ ''K=2'' # [''J=3'']
   \<and> scanStep Map.empty ''K=1'' ''K'' = Some ''1''
   \<and> scanStep Map.empty ''K=2'' ''K'' = Some ''2''
   \<and> scanStep Map.empty ''J=3'' ''K'' = None
   \<and> fst (loadEnvFile \<lparr>Stat = (\<lambda>p. None), Open = (\<lambda>p. Inr (File (''K=1'' @ [newline] @ ''K=2'' @ [newline] @ ''J=3'') None))\<rparr> ''.env'' [''K'' \<mapsto> ''0'']) ''K''
       = Some ''2''"
proof -
  let ?D = "''K=1'' @ [newline] @ ''K=2'' @ [newline] @ ''J=3''"
  let ?fs = "\<lparr>Stat = (\<lambda>p. None), Open = (\<lambda>p. Inr (File ?D None))\<rparr>"
  have o: "Open ?fs ''.env'' = Inr (File ?D None)" by simp
  have lines: "ScanLines (data (File ?D None)) = [''K=1''] @ ''K=2'' # [''J=3'']" by code_simp
  have e1: "scanStep Map.empty ''K=1'' ''K'' = Some ''1''" by code_simp
  have e2: "scanStep Map.empty ''K=2'' ''K'' = Some ''2''" by code_simp
  have e3: "\<forall>l' \<in> set [''J=3'']. scanStep Map.empty l' ''K'' = None" by code_simp
  have r: "fst (loadEnvFile ?fs ''.env'' [''K'' \<mapsto> ''0'']) ''K'' = Some ''2''"
    by (rule last_occurrence_wins [OF o lines e2 e3])
  from lines have lines': "ScanLines ?D = [''K=1''] @ ''K=2'' # [''J=3'']" by simp
  from e3 have e3': "scanStep Map.empty ''J=3'' ''K'' = None" by simp
  from o lines' e1 e2 e3' r show ?thesis by blast
qed

section \<open>The loop over the search directories\<close>

lemma loadEnvFile_readError:
  "Stat fs path = None \<Longrightarrow> snd (loadEnvFile fs path m) = readError fs path"
  by (simp add: loadEnvFile_def readError_def split: sum.splits)

lemma loadEnvFile_fileEnvs:
  "Stat fs path = None \<Longrightarrow> fst (loadEnvFile fs path m) = m ++ fileEnvs fs path"
  by (simp add: loadEnvFile_def fileEnvs_def foldl_scanStep_add [of m] split: sum.splits)

lemma readError_Stat: "Stat fs path \<noteq> None \<Longrightarrow> readError fs path = None"
  by (auto simp: readError_def)

lemma fileEnvs_Stat: "Stat fs path \<noteq> None \<Longrightarrow> fileEnvs fs path = Map.empty"
  by (auto simp: fileEnvs_def)

lemma loadDirs_Suc:
  "loadDirs fs fn dirs (Suc i) m =
     (case readError fs (Join (dirs ! i) fn) of
        Some c \<Rightarrow> Inl (FailedToLoad (Join (dirs ! i) fn) c)
      | None \<Rightarrow> loadDirs fs fn dirs i (m ++ fileEnvs fs (Join (dirs ! i) fn)))"
proof (cases "Stat fs (Join (dirs ! i) fn) = None")
  case True
  obtain m' r where l: "loadEnvFile fs (Join (dirs ! i) fn) m = (m', r)"
    by (cases "loadEnvFile fs (Join (dirs ! i) fn) m")
  from l loadEnvFile_readError [OF True, of m] have r: "readError fs (Join (dirs ! i) fn) = r"
    by simp
  from l loadEnvFile_fileEnvs [OF True, of m] have m': "m' = m ++ fileEnvs fs (Join (dirs ! i) fn)"
    by simp
  show ?thesis using True l by (simp add: r m' split: option.splits)
next
  case False
  then show ?thesis by (auto simp: readError_Stat fileEnvs_Stat Let_def)
qed

declare loadDirs.simps(2) [simp del]

lemma mergeYielding_foldl: "foldl (\<lambda>acc layer. layer ++ acc) a ls = mergeYielding ls ++ a"
  unfolding mergeYielding_def
proof (induction ls arbitrary: a)
  case Nil
  show ?case by simp
next
  case (Cons l ls)
  show ?case using Cons.IH [of "l ++ a"] Cons.IH [of "l ++ Map.empty"] by simp
qed

lemma mergeYielding_Nil: "mergeYielding [] = Map.empty"
  by (simp add: mergeYielding_def)

lemma mergeYielding_snoc: "mergeYielding (ls @ [l]) = l ++ mergeYielding ls"
  by (simp add: mergeYielding_def)

lemma loadDirs_ok:
  "n \<le> length dirs \<Longrightarrow> \<forall>i<n. readError fs (Join (dirs ! i) fn) = None \<Longrightarrow>
   loadDirs fs fn dirs n m
     = Inr (m ++ mergeYielding (map (\<lambda>d. fileEnvs fs (Join d fn)) (take n dirs)))"
proof (induction n arbitrary: m)
  case 0
  show ?case by (simp add: mergeYielding_Nil)
next
  case (Suc n)
  from Suc.prems have n: "n < length dirs" and e: "readError fs (Join (dirs ! n) fn) = None"
    and rest: "\<forall>i<n. readError fs (Join (dirs ! i) fn) = None"
    by auto
  from n have "n \<le> length dirs" by simp
  from Suc.IH [OF this rest]
  have "loadDirs fs fn dirs (Suc n) m
        = Inr ((m ++ fileEnvs fs (Join (dirs ! n) fn))
               ++ mergeYielding (map (\<lambda>d. fileEnvs fs (Join d fn)) (take n dirs)))"
    by (simp only: loadDirs_Suc e option.case)
  also have "take (Suc n) dirs = take n dirs @ [dirs ! n]"
    using n by (rule take_Suc_conv_app_nth)
  then have "(m ++ fileEnvs fs (Join (dirs ! n) fn))
               ++ mergeYielding (map (\<lambda>d. fileEnvs fs (Join d fn)) (take n dirs))
             = m ++ mergeYielding (map (\<lambda>d. fileEnvs fs (Join d fn)) (take (Suc n) dirs))"
    by (simp add: mergeYielding_snoc)
  finally show ?case .
qed


lemma loadDirs_fails:
  "\<exists>i<n. readError fs (Join (dirs ! i) fn) \<noteq> None \<Longrightarrow> \<exists>err. loadDirs fs fn dirs n m = Inl err"
proof (induction n arbitrary: m)
  case 0
  then show ?case by simp
next
  case (Suc n)
  show ?case
  proof (cases "readError fs (Join (dirs ! n) fn)")
    case None
    with Suc.prems have "\<exists>i<n. readError fs (Join (dirs ! i) fn) \<noteq> None"
      by (auto simp: less_Suc_eq)
    from Suc.IH [OF this] None show ?thesis by (simp add: loadDirs_Suc)
  next
    case (Some c)
    then show ?thesis by (simp add: loadDirs_Suc)
  qed
qed

lemma dom_mergeYielding: "dom (mergeYielding ls) = (\<Union>l \<in> set ls. dom l)"
  by (induction ls rule: rev_induct) (auto simp: mergeYielding_Nil mergeYielding_snoc)

lemma LoadEnvFiles_ok:
  assumes "\<forall>d \<in> set (getSearchDirectories e). readError fs (Join d (envFilename profile)) = None"
  shows "LoadEnvFiles fs e profile
         = Inr (mergeYielding (map (\<lambda>d. fileEnvs fs (Join d (envFilename profile)))
                                   (getSearchDirectories e)))"
proof -
  from assms have "\<forall>i<length (getSearchDirectories e).
      readError fs (Join (getSearchDirectories e ! i) (envFilename profile)) = None"
    by simp
  from loadDirs_ok [OF le_refl this, of Map.empty] show ?thesis
    by (simp add: LoadEnvFiles_def Let_def)
qed

lemma LoadEnvFiles_fails:
  assumes "d \<in> set (getSearchDirectories e)"
    and "readError fs (Join d (envFilename profile)) \<noteq> None"
  shows "\<exists>err. LoadEnvFiles fs e profile = Inl err"
proof -
  from assms(1) obtain i where "i < length (getSearchDirectories e)"
    and "getSearchDirectories e ! i = d"
    by (auto simp: in_set_conv_nth)
  with assms(2) have "\<exists>i<length (getSearchDirectories e).
      readError fs (Join (getSearchDirectories e ! i) (envFilename profile)) \<noteq> None"
    by auto
  from loadDirs_fails [OF this] show ?thesis
    by (simp add: LoadEnvFiles_def Let_def)
qed


lemma LoadEnvFiles_Inr:
  assumes "LoadEnvFiles fs e profile = Inr m"
  shows "(\<forall>d \<in> set (getSearchDirectories e). readError fs (Join d (envFilename profile)) = None)
         \<and> m = mergeYielding (map (\<lambda>d. fileEnvs fs (Join d (envFilename profile)))
                                   (getSearchDirectories e))"
proof -
  have ok: "\<forall>d \<in> set (getSearchDirectories e). readError fs (Join d (envFilename profile)) = None"
  proof (rule ccontr)
    assume "\<not> ?thesis"
    then obtain d where "d \<in> set (getSearchDirectories e)"
      and "readError fs (Join d (envFilename profile)) \<noteq> None"
      by auto
    from LoadEnvFiles_fails [OF this] assms show False by auto
  qed
  from LoadEnvFiles_ok [OF ok] assms ok show ?thesis by simp
qed



lemma mergeYielding_two: "mergeYielding [a, b] = b ++ a"
  by (simp add: mergeYielding_def)

lemma readError_cong:
  assumes s: "Stat fs path = Stat fs' path" and opn: "Open fs path = Open fs' path"
  shows "readError fs path = readError fs' path"
  unfolding readError_def s opn ..

lemma fileEnvs_cong:
  assumes s: "Stat fs path = Stat fs' path" and opn: "Open fs path = Open fs' path"
  shows "fileEnvs fs path = fileEnvs fs' path"
  unfolding fileEnvs_def s opn ..

lemma loadDirs_cong:
  "\<forall>i<n. Stat fs (Join (dirs ! i) fn) = Stat fs' (Join (dirs ! i) fn)
          \<and> Open fs (Join (dirs ! i) fn) = Open fs' (Join (dirs ! i) fn) \<Longrightarrow>
   loadDirs fs fn dirs n m = loadDirs fs' fn dirs n m"
proof (induction n arbitrary: m)
  case 0
  show ?case by simp
next
  case (Suc n)
  from Suc.prems have here: "Stat fs (Join (dirs ! n) fn) = Stat fs' (Join (dirs ! n) fn)"
      "Open fs (Join (dirs ! n) fn) = Open fs' (Join (dirs ! n) fn)"
    and rest: "\<forall>i<n. Stat fs (Join (dirs ! i) fn) = Stat fs' (Join (dirs ! i) fn)
          \<and> Open fs (Join (dirs ! i) fn) = Open fs' (Join (dirs ! i) fn)"
    by auto
  show ?case
    by (simp only: loadDirs_Suc readError_cong [OF here] fileEnvs_cong [OF here] Suc.IH [OF rest])
qed

section \<open>The merge of the files\<close>

lemma foldl_overwrite: "foldl (\<lambda>acc layer. acc ++ layer) a (rev ls) = a ++ mergeYielding ls"
proof (induction ls arbitrary: a rule: rev_induct)
  case Nil
  show ?case by (simp add: mergeYielding_Nil)
next
  case (snoc l ls)
  have "foldl (\<lambda>acc layer. acc ++ layer) a (rev (ls @ [l]))
        = foldl (\<lambda>acc layer. acc ++ layer) (a ++ l) (rev ls)"
    by simp
  also have "\<dots> = (a ++ l) ++ mergeYielding ls"
    by (rule snoc.IH)
  also have "\<dots> = a ++ mergeYielding (ls @ [l])"
    by (simp add: mergeYielding_snoc)
  finally show ?case .
qed

text \<open>
  Claim C3 (merge strategy).  When no file of the search directories fails to be read,
  the loop of \<open>LoadEnvFiles\<close>, which walks the directories from the last one to the first
  and lets each file overwrite the keys set so far, returns exactly the map obtained by
  taking the files in priority order, first directory first, and letting each later file
  yield to the keys that are already set.  This holds for the loop on any list of
  directories, for \<open>LoadEnvFiles\<close> on its search directories, and for the two ways of
  merging any list of maps.
\<close>

theorem merge_strategy_equivalence:
  assumes "\<forall>d \<in> set dirs. readError fs (Join d fn) = None"
    and "layers = map (\<lambda>d. fileEnvs fs (Join d fn)) dirs"
  shows "loadDirs fs fn dirs (length dirs) Map.empty = Inr (mergeYielding layers)
         \<and> (dirs = getSearchDirectories e \<and> fn = envFilename profile
              \<longrightarrow> LoadEnvFiles fs e profile = Inr (mergeYielding layers))
         \<and> foldl (\<lambda>acc layer. acc ++ layer) Map.empty (rev layers) = mergeYielding layers"
proof (intro conjI impI)
  from assms(1) have "\<forall>i<length dirs. readError fs (Join (dirs ! i) fn) = None"
    by simp
  from loadDirs_ok [OF le_refl this, of Map.empty]
  show "loadDirs fs fn dirs (length dirs) Map.empty = Inr (mergeYielding layers)"
    by (simp add: assms(2))
next
  assume "dirs = getSearchDirectories e \<and> fn = envFilename profile"
  with assms show "LoadEnvFiles fs e profile = Inr (mergeYielding layers)"
    using LoadEnvFiles_ok [of e fs profile] by simp
next
  show "foldl (\<lambda>acc layer. acc ++ layer) Map.empty (rev layers) = mergeYielding layers"
    by (simp add: foldl_overwrite)
qed

theorem merge_strategy_equivalence_witness:
  "getSearchDirectories hierarchicalEnv = [''/pwd'', ''/config/envdo'']
   \<and> readError hierarchicalFiles (Join ''/pwd'' ''.env'') = None
   \<and> readError hierarchicalFiles (Join ''/config/envdo'' ''.env'') = None
   \<and> (\<exists>m. LoadEnvFiles hierarchicalFiles hierarchicalEnv [] = Inr m
           \<and> m ''KEY1'' = Some ''pwd_value''
           \<and> m ''PWD_ONLY'' = Some ''pwd_key''
           \<and> m ''CONFIG_ONLY'' = Some ''config_key''
           \<and> m = fileEnvs hierarchicalFiles ''/config/envdo/.env''
                   ++ fileEnvs hierarchicalFiles ''/pwd/.env'')"
proof -
  let ?dirs = "[''/pwd'', ''/config/envdo'']"
  let ?layers = "map (\<lambda>d. fileEnvs hierarchicalFiles (Join d ''.env'')) ?dirs"
  have d: "?dirs = getSearchDirectories hierarchicalEnv" by code_simp
  have f: "''.env'' = envFilename []" by code_simp
  have r1: "readError hierarchicalFiles (Join ''/pwd'' ''.env'') = None" by code_simp
  have r2: "readError hierarchicalFiles (Join ''/config/envdo'' ''.env'') = None" by code_simp
  from r1 r2 have r: "\<forall>d \<in> set ?dirs. readError hierarchicalFiles (Join d ''.env'') = None"
    by simp
  have j1: "Join ''/pwd'' ''.env'' = ''/pwd/.env''" by code_simp
  have j2: "Join ''/config/envdo'' ''.env'' = ''/config/envdo/.env''" by code_simp
  from merge_strategy_equivalence [OF r refl, of hierarchicalEnv "[]"] d f
  have l: "LoadEnvFiles hierarchicalFiles hierarchicalEnv [] = Inr (mergeYielding ?layers)"
    by blast
  have k1: "mergeYielding ?layers ''KEY1'' = Some ''pwd_value''" by code_simp
  have k2: "mergeYielding ?layers ''PWD_ONLY'' = Some ''pwd_key''" by code_simp
  have k3: "mergeYielding ?layers ''CONFIG_ONLY'' = Some ''config_key''" by code_simp
  have k4: "mergeYielding ?layers = fileEnvs hierarchicalFiles ''/config/envdo/.env''
                   ++ fileEnvs hierarchicalFiles ''/pwd/.env''"
    by (simp only: list.map mergeYielding_two j1 j2)
  from d [symmetric] r1 r2 l k1 k2 k3 k4 show ?thesis by blast
qed

section \<open>Precedence between the directories\<close>

lemma getSearchDirectories_length: "length (getSearchDirectories e) \<le> 2"
  by (simp add: getSearchDirectories_def Let_def)

lemma two_dirs:
  assumes "i < j" and "j < length (getSearchDirectories e)"
  shows "getSearchDirectories e = [getSearchDirectories e ! i, getSearchDirectories e ! j]"
proof -
  from assms getSearchDirectories_length [of e] have ij: "i = 0" "j = 1"
    and len: "length (getSearchDirectories e) = 2"
    by simp_all
  from len obtain a b where "getSearchDirectories e = [a, b]"
    by (cases "getSearchDirectories e" rule: list.exhaust)
       (auto simp: length_Suc_conv)
  then show ?thesis by (simp add: ij)
qed

text \<open>
  Claim C1 (precedence between directories, additive merge).  Let \<open>D1\<close> stand before \<open>D2\<close>
  in the list of search directories and let \<open>LoadEnvFiles\<close> return the map \<open>m\<close>.  For a
  key that the file of \<open>D1\<close> defines, \<open>m\<close> holds the value of that file, whatever the file
  of \<open>D2\<close> holds for it.  For a key that the file of \<open>D1\<close> does not define, \<open>m\<close> holds what
  the file of \<open>D2\<close> holds: a key defined in the file of \<open>D2\<close> alone is kept with its value.
  The map of a file is the result of all its lines, so the order of the lines inside
  the files plays no part.
\<close>

theorem cross_directory_precedence:
  assumes "LoadEnvFiles fs e profile = Inr m"
    and "dirs = getSearchDirectories e" and "fn = envFilename profile"
    and "i < j" and "j < length dirs" and "D1 = dirs ! i" and "D2 = dirs ! j"
  shows "(fileEnvs fs (Join D1 fn) K = Some v1 \<longrightarrow> m K = Some v1)
         \<and> (fileEnvs fs (Join D1 fn) K = None \<longrightarrow> m K = fileEnvs fs (Join D2 fn) K)"
proof -
  from assms(2,4,5,6,7) have dirs: "getSearchDirectories e = [D1, D2]"
    using two_dirs [of i j e] by simp
  from LoadEnvFiles_Inr [OF assms(1)]
  have "m = mergeYielding (map (\<lambda>d. fileEnvs fs (Join d fn)) (getSearchDirectories e))"
    by (simp add: assms(3))
  then have "m = fileEnvs fs (Join D2 fn) ++ fileEnvs fs (Join D1 fn)"
    by (simp only: dirs list.map mergeYielding_two)
  then show ?thesis by (simp add: map_add_def)
qed

theorem cross_directory_precedence_witness:
  "fileEnvs hierarchicalFiles (Join ''/pwd'' ''.env'') ''KEY1'' = Some ''pwd_value''
   \<and> fileEnvs hierarchicalFiles (Join ''/config/envdo'' ''.env'') ''KEY1'' = Some ''config_value''
   \<and> fileEnvs hierarchicalFiles (Join ''/pwd'' ''.env'') ''CONFIG_ONLY'' = None
   \<and> fileEnvs hierarchicalFiles (Join ''/config/envdo'' ''.env'') ''CONFIG_ONLY'' = Some ''config_key''
   \<and> (\<exists>m. LoadEnvFiles hierarchicalFiles hierarchicalEnv [] = Inr m
           \<and> m ''KEY1'' = Some ''pwd_value''
           \<and> m ''CONFIG_ONLY'' = Some ''config_key'')"
proof -
  let ?dirs = "[''/pwd'', ''/config/envdo'']"
  have d: "?dirs = getSearchDirectories hierarchicalEnv" by code_simp
  have f: "''.env'' = envFilename []" by code_simp
  have r1: "readError hierarchicalFiles (Join ''/pwd'' ''.env'') = None" by code_simp
  have r2: "readError hierarchicalFiles (Join ''/config/envdo'' ''.env'') = None" by code_simp
  from r1 r2 have "\<forall>d \<in> set (getSearchDirectories hierarchicalEnv).
      readError hierarchicalFiles (Join d (envFilename [])) = None"
    by (simp add: d [symmetric] f [symmetric])
  from LoadEnvFiles_ok [OF this] obtain m
    where m: "LoadEnvFiles hierarchicalFiles hierarchicalEnv [] = Inr m"
    by blast
  have a1: "fileEnvs hierarchicalFiles (Join ''/pwd'' ''.env'') ''KEY1'' = Some ''pwd_value''"
    by code_simp
  have a2: "fileEnvs hierarchicalFiles (Join ''/config/envdo'' ''.env'') ''KEY1'' = Some ''config_value''"
    by code_simp
  have b1: "fileEnvs hierarchicalFiles (Join ''/pwd'' ''.env'') ''CONFIG_ONLY'' = None"
    by code_simp
  have b2: "fileEnvs hierarchicalFiles (Join ''/config/envdo'' ''.env'') ''CONFIG_ONLY'' = Some ''config_key''"
    by code_simp
  have i0: "''/pwd'' = ?dirs ! 0" and i1: "''/config/envdo'' = ?dirs ! 1" by simp_all
  have lt: "(0::nat) < 1" and len: "1 < length ?dirs" by simp_all
  note th = cross_directory_precedence [OF m d f lt len i0 i1]
  from th [of "''KEY1''" "''pwd_value''"] a1 have k1: "m ''KEY1'' = Some ''pwd_value''"
    by blast
  from th [of "''CONFIG_ONLY''"] b1 have "m ''CONFIG_ONLY''
      = fileEnvs hierarchicalFiles (Join ''/config/envdo'' ''.env'') ''CONFIG_ONLY''"
    by blast
  with b2 have k2: "m ''CONFIG_ONLY'' = Some ''config_key''" by simp
  from a1 a2 b1 b2 m k1 k2 show ?thesis by blast
qed

section \<open>Missing files and files that cannot be read\<close>




section \<open>The keys of the result\<close>

lemma loadEnvFile_add: "fst (loadEnvFile fs path m) = m ++ fst (loadEnvFile fs path Map.empty)"
  by (simp add: loadEnvFile_def foldl_scanStep_add [of m] split: sum.splits)

text \<open>
  Claim C10 (the merge never deletes).  \<open>loadEnvFile\<close> leaves the map it was given with
  entries added or overwritten and none removed: the map after the call is the map
  before it overridden by what the file yields on the empty map, so every key of the
  map before the call is a key of the map after it.  Hence the keys of the map that
  \<open>LoadEnvFiles\<close> returns are exactly the keys of the maps of the files of the search
  directories, a file that is not there having no keys.
\<close>

theorem merge_monotone:
  "dom m \<subseteq> dom (fst (loadEnvFile fs path m))
   \<and> fst (loadEnvFile fs path m) = m ++ fst (loadEnvFile fs path Map.empty)
   \<and> (LoadEnvFiles fs e profile = Inr r
        \<longrightarrow> dom r = (\<Union>d \<in> set (getSearchDirectories e).
                         dom (fileEnvs fs (Join d (envFilename profile)))))"
proof (intro conjI impI)
  show add: "fst (loadEnvFile fs path m) = m ++ fst (loadEnvFile fs path Map.empty)"
    by (rule loadEnvFile_add)
  show "dom m \<subseteq> dom (fst (loadEnvFile fs path m))"
    by (subst add) simp
next
  assume "LoadEnvFiles fs e profile = Inr r"
  from LoadEnvFiles_Inr [OF this]
  have "r = mergeYielding (map (\<lambda>d. fileEnvs fs (Join d (envFilename profile)))
                               (getSearchDirectories e))"
    by simp
  then show "dom r = (\<Union>d \<in> set (getSearchDirectories e).
                         dom (fileEnvs fs (Join d (envFilename profile))))"
    by (simp add: dom_mergeYielding)
qed

theorem merge_monotone_witness:
  "dom [''KEPT'' \<mapsto> ''0''] \<subseteq> dom (fst (loadEnvFile hierarchicalFiles ''/pwd/.env'' [''KEPT'' \<mapsto> ''0'']))
   \<and> fst (loadEnvFile hierarchicalFiles ''/pwd/.env'' [''KEPT'' \<mapsto> ''0'']) ''KEPT'' = Some ''0''
   \<and> fst (loadEnvFile hierarchicalFiles ''/pwd/.env'' [''KEY1'' \<mapsto> ''0'']) ''KEY1'' = Some ''pwd_value''
   \<and> (\<exists>r. LoadEnvFiles hierarchicalFiles hierarchicalEnv [] = Inr r
           \<and> dom r = dom (fileEnvs hierarchicalFiles ''/pwd/.env'')
                       \<union> dom (fileEnvs hierarchicalFiles ''/config/envdo/.env'')
           \<and> ''PWD_ONLY'' \<in> dom r \<and> ''CONFIG_ONLY'' \<in> dom r \<and> ''KEY2'' \<notin> dom r)"
proof -
  let ?dirs = "[''/pwd'', ''/config/envdo'']"
  have d: "getSearchDirectories hierarchicalEnv = ?dirs" by code_simp
  have f: "envFilename [] = ''.env''" by code_simp
  have j1: "Join ''/pwd'' ''.env'' = ''/pwd/.env''" by code_simp
  have j2: "Join ''/config/envdo'' ''.env'' = ''/config/envdo/.env''" by code_simp
  have r1: "readError hierarchicalFiles ''/pwd/.env'' = None" by code_simp
  have r2: "readError hierarchicalFiles ''/config/envdo/.env'' = None" by code_simp
  have "\<forall>d \<in> set (getSearchDirectories hierarchicalEnv).
      readError hierarchicalFiles (Join d (envFilename [])) = None"
    by (simp add: d f j1 j2 r1 r2)
  from LoadEnvFiles_ok [OF this] obtain r
    where r: "LoadEnvFiles hierarchicalFiles hierarchicalEnv [] = Inr r"
    by blast
  note th = merge_monotone [of _ hierarchicalFiles "''/pwd/.env''" hierarchicalEnv "[]" r]
  have a: "dom [''KEPT'' \<mapsto> ''0'']
           \<subseteq> dom (fst (loadEnvFile hierarchicalFiles ''/pwd/.env'' [''KEPT'' \<mapsto> ''0'']))"
    using th [of "[''KEPT'' \<mapsto> ''0'']"] by blast
  have n: "fst (loadEnvFile hierarchicalFiles ''/pwd/.env'' Map.empty) ''KEPT'' = None"
    by code_simp
  have "fst (loadEnvFile hierarchicalFiles ''/pwd/.env'' [''KEPT'' \<mapsto> ''0''])
        = [''KEPT'' \<mapsto> ''0''] ++ fst (loadEnvFile hierarchicalFiles ''/pwd/.env'' Map.empty)"
    using th [of "[''KEPT'' \<mapsto> ''0'']"] by blast
  then have b: "fst (loadEnvFile hierarchicalFiles ''/pwd/.env'' [''KEPT'' \<mapsto> ''0'']) ''KEPT'' = Some ''0''"
    by (simp add: map_add_def n)
  have s: "fst (loadEnvFile hierarchicalFiles ''/pwd/.env'' Map.empty) ''KEY1'' = Some ''pwd_value''"
    by code_simp
  have "fst (loadEnvFile hierarchicalFiles ''/pwd/.env'' [''KEY1'' \<mapsto> ''0''])
        = [''KEY1'' \<mapsto> ''0''] ++ fst (loadEnvFile hierarchicalFiles ''/pwd/.env'' Map.empty)"
    using th [of "[''KEY1'' \<mapsto> ''0'']"] by blast
  then have c: "fst (loadEnvFile hierarchicalFiles ''/pwd/.env'' [''KEY1'' \<mapsto> ''0'']) ''KEY1'' = Some ''pwd_value''"
    by (simp add: map_add_def s)
  from th [of Map.empty] r
  have "dom r = (\<Union>d \<in> set (getSearchDirectories hierarchicalEnv).
                   dom (fileEnvs hierarchicalFiles (Join d (envFilename []))))"
    by blast
  then have u: "dom r = dom (fileEnvs hierarchicalFiles ''/pwd/.env'')
                       \<union> dom (fileEnvs hierarchicalFiles ''/config/envdo/.env'')"
    by (simp add: d f j1 j2)
  have p1: "fileEnvs hierarchicalFiles ''/pwd/.env'' ''PWD_ONLY'' = Some ''pwd_key''" by code_simp
  have p2: "fileEnvs hierarchicalFiles ''/config/envdo/.env'' ''CONFIG_ONLY'' = Some ''config_key''"
    by code_simp
  have q1: "fileEnvs hierarchicalFiles ''/pwd/.env'' ''KEY2'' = None" by code_simp
  have q2: "fileEnvs hierarchicalFiles ''/config/envdo/.env'' ''KEY2'' = None" by code_simp
  from u p1 have k1: "''PWD_ONLY'' \<in> dom r" by blast
  from u p2 have k2: "''CONFIG_ONLY'' \<in> dom r" by blast
  from u q1 q2 have k3: "''KEY2'' \<notin> dom r" by blast
  from a b c r u k1 k2 k3 show ?thesis by blast
qed

section \<open>The file name of a profile\<close>

lemma LoadEnvFiles_cong:
  assumes "\<forall>d \<in> set (getSearchDirectories e).
             Stat fs (Join d (envFilename profile)) = Stat fs' (Join d (envFilename profile))
             \<and> Open fs (Join d (envFilename profile)) = Open fs' (Join d (envFilename profile))"
  shows "LoadEnvFiles fs e profile = LoadEnvFiles fs' e profile"
proof -
  from assms have "\<forall>i<length (getSearchDirectories e).
      Stat fs (Join (getSearchDirectories e ! i) (envFilename profile))
        = Stat fs' (Join (getSearchDirectories e ! i) (envFilename profile))
      \<and> Open fs (Join (getSearchDirectories e ! i) (envFilename profile))
        = Open fs' (Join (getSearchDirectories e ! i) (envFilename profile))"
    by simp
  from loadDirs_cong [OF this] show ?thesis
    by (simp only: LoadEnvFiles_def Let_def)
qed

text \<open>
  Claim C9 (file name of a profile).  The file name that \<open>LoadEnvFiles\<close> looks up is
  \<open>.env\<close> for the empty profile and \<open>.env.\<close> followed by the profile, unchanged, otherwise.
  It is the name looked up in every search directory: the result of \<open>LoadEnvFiles\<close>
  depends on the file system only through \<open>os.Stat\<close> and \<open>os.Open\<close> at the paths that join
  a search directory with this name, so that two file systems that agree there give
  the same result.
\<close>

theorem profile_filename_selection:
  assumes "fn = (if profile = [] then ''.env'' else ''.env.'' @ profile)"
  shows "envFilename profile = fn
         \<and> ((\<forall>d \<in> set (getSearchDirectories e).
                Stat fs (Join d fn) = Stat fs' (Join d fn)
                \<and> Open fs (Join d fn) = Open fs' (Join d fn))
            \<longrightarrow> LoadEnvFiles fs e profile = LoadEnvFiles fs' e profile)"
proof (intro conjI impI)
  show fn: "envFilename profile = fn"
    by (simp add: envFilename_def assms)
  assume "\<forall>d \<in> set (getSearchDirectories e).
            Stat fs (Join d fn) = Stat fs' (Join d fn) \<and> Open fs (Join d fn) = Open fs' (Join d fn)"
  then show "LoadEnvFiles fs e profile = LoadEnvFiles fs' e profile"
    by (intro LoadEnvFiles_cong) (simp only: fn)
qed

theorem profile_filename_selection_witness:
  "envFilename ''staging'' = ''.env.staging''
   \<and> envFilename [] = ''.env''
   \<and> Join ''/pwd'' ''.env.staging'' = ''/pwd/.env.staging''
   \<and> Join ''/config/envdo'' ''.env.staging'' = ''/config/envdo/.env.staging''
   \<and> LoadEnvFiles stagingAndPlainFiles hierarchicalEnv ''staging''
       = LoadEnvFiles stagingFiles hierarchicalEnv ''staging''
   \<and> (\<exists>m. LoadEnvFiles stagingFiles hierarchicalEnv ''staging'' = Inr m
           \<and> m ''STAGE_KEY'' = Some ''pwd_staging''
           \<and> m ''CONFIG_STAGE'' = Some ''config_value''
           \<and> m ''KEY1'' = None)"
proof -
  let ?dirs = "[''/pwd'', ''/config/envdo'']"
  let ?layers = "map (\<lambda>d. fileEnvs stagingFiles (Join d ''.env.staging'')) ?dirs"
  have d: "getSearchDirectories hierarchicalEnv = ?dirs" by code_simp
  have f: "''.env.staging'' = (if ''staging'' = [] then ''.env'' else ''.env.'' @ ''staging'')"
    by simp
  have f0: "''.env'' = (if ([]::string) = [] then ''.env'' else ''.env.'' @ [])"
    by simp
  have j1: "Join ''/pwd'' ''.env.staging'' = ''/pwd/.env.staging''" by code_simp
  have j2: "Join ''/config/envdo'' ''.env.staging'' = ''/config/envdo/.env.staging''" by code_simp
  have s1: "Stat stagingAndPlainFiles ''/pwd/.env.staging'' = Stat stagingFiles ''/pwd/.env.staging''"
    by code_simp
  have s2: "Stat stagingAndPlainFiles ''/config/envdo/.env.staging''
            = Stat stagingFiles ''/config/envdo/.env.staging''"
    by code_simp
  have o1: "Open stagingAndPlainFiles ''/pwd/.env.staging'' = Open stagingFiles ''/pwd/.env.staging''"
    by code_simp
  have o2: "Open stagingAndPlainFiles ''/config/envdo/.env.staging''
            = Open stagingFiles ''/config/envdo/.env.staging''"
    by code_simp
  have agree: "\<forall>d \<in> set (getSearchDirectories hierarchicalEnv).
      Stat stagingAndPlainFiles (Join d ''.env.staging'') = Stat stagingFiles (Join d ''.env.staging'')
      \<and> Open stagingAndPlainFiles (Join d ''.env.staging'') = Open stagingFiles (Join d ''.env.staging'')"
    by (simp add: d j1 j2 s1 s2 o1 o2)
  note th = profile_filename_selection [OF f, of hierarchicalEnv stagingAndPlainFiles stagingFiles]
  from th have n: "envFilename ''staging'' = ''.env.staging''" by blast
  from profile_filename_selection [OF f0] have n0: "envFilename [] = ''.env''" by blast
  from th agree have e: "LoadEnvFiles stagingAndPlainFiles hierarchicalEnv ''staging''
       = LoadEnvFiles stagingFiles hierarchicalEnv ''staging''"
    by blast
  have r1: "readError stagingFiles ''/pwd/.env.staging'' = None" by code_simp
  have r2: "readError stagingFiles ''/config/envdo/.env.staging'' = None" by code_simp
  have "\<forall>d \<in> set (getSearchDirectories hierarchicalEnv).
      readError stagingFiles (Join d (envFilename ''staging'')) = None"
    by (simp add: d n j1 j2 r1 r2)
  from LoadEnvFiles_ok [OF this]
  have l: "LoadEnvFiles stagingFiles hierarchicalEnv ''staging'' = Inr (mergeYielding ?layers)"
    by (simp only: d n)
  have k1: "mergeYielding ?layers ''STAGE_KEY'' = Some ''pwd_staging''" by code_simp
  have k2: "mergeYielding ?layers ''CONFIG_STAGE'' = Some ''config_value''" by code_simp
  have k3: "mergeYielding ?layers ''KEY1'' = None" by code_simp
  from n n0 j1 j2 e l k1 k2 k3 show ?thesis by blast
qed

end
